theory Spec2Isabelle
  imports Main "HOL-Library.AList"
begin

section \<open>Text normalisation (\<open>cleanupText\<close> of the preprocessing module)\<close>

text \<open>
  Diagram text is a \<^typ>\<open>string\<close>. Every character the code tells apart (carriage return,
  line feed, \<open><\<close>, \<open>>\<close>, \<open>=\<close>, the double quote and the ASCII word characters) is ASCII;
  all other characters are treated alike by both regular expressions, so they are
  modelled by the remaining values of \<^typ>\<open>char\<close>.
\<close>

abbreviation CR :: char where "CR \<equiv> CHR 0x0D"
abbreviation LF :: char where "LF \<equiv> CHR 0x0A"
abbreviation DQUOTE :: char where "DQUOTE \<equiv> CHR 0x22"
abbreviation SQUOTE :: char where "SQUOTE \<equiv> CHR 0x27"
abbreviation LT :: char where "LT \<equiv> CHR ''<''"
abbreviation GT :: char where "GT \<equiv> CHR ''>''"
abbreviation EQUALS :: char where "EQUALS \<equiv> CHR ''=''"

text \<open>The class \<open>\w\<close> of a regular expression without flags: \<open>[A-Za-z0-9_]\<close>.\<close>

definition is_word_char :: "char \<Rightarrow> bool" where
  "is_word_char c =
     (let n = (of_char c :: nat)
      in (48 \<le> n \<and> n \<le> 57) \<or> (65 \<le> n \<and> n \<le> 90) \<or> n = 95 \<or> (97 \<le> n \<and> n \<le> 122))"

text \<open>
  \<^verbatim>\<open>.replace(/\r\n?/g, '\n')\<close>: scanning from the left, a carriage return together with a
  line feed that follows it directly (the optional \<open>\n?\<close> is greedy) becomes one line
  feed; every other character is copied.
\<close>

fun replace_line_endings :: "string \<Rightarrow> string" where
  "replace_line_endings [] = []"
| "replace_line_endings [c] = (if c = CR then [LF] else [c])"
| "replace_line_endings (c # d # cs) =
     (if c = CR then (if d = LF then LF # replace_line_endings cs
                      else LF # replace_line_endings (d # cs))
      else c # replace_line_endings (d # cs))"

text \<open>
  \<^verbatim>\<open>attributes.replace(/="([^"]*)"/g, "='$1'")\<close>. A match starts at an \<open>=\<close> that is directly
  followed by a double quote, provided a further double quote occurs later (the greedy
  \<open>[^"]*\<close> stops at the first one, and no backtracking can help when there is none). The
  captured group is the text up to that closing quote; the match is replaced by the group
  between single quotes after \<open>=\<close>, and scanning goes on behind the closing quote.
\<close>

function replace_attribute_quotes :: "string \<Rightarrow> string" where
  "replace_attribute_quotes [] = []"
| "replace_attribute_quotes [c] = [c]"
| "replace_attribute_quotes (c # d # cs) =
     (if c = EQUALS \<and> d = DQUOTE \<and> DQUOTE \<in> set cs
      then EQUALS # SQUOTE # takeWhile (\<lambda>x. x \<noteq> DQUOTE) cs
             @ SQUOTE # replace_attribute_quotes (tl (dropWhile (\<lambda>x. x \<noteq> DQUOTE) cs))
      else c # replace_attribute_quotes (d # cs))"
  by pat_completeness auto
termination
proof (relation "measure length")
  fix c d :: char and cs :: string
  have "length (dropWhile (\<lambda>x. x \<noteq> DQUOTE) cs) \<le> length cs"
    by (rule length_dropWhile_le)
  then show "(tl (dropWhile (\<lambda>x. x \<noteq> DQUOTE) cs), c # d # cs) \<in> measure length"
    by simp
qed simp_all

text \<open>
  \<^verbatim>\<open>.replace(/<(\w+)([^>]*)>/g, (match, tag, attributes) => '<' + tag + attributes.replace(...) + '>')\<close>.
  A match starts at a \<open><\<close> that is directly followed by a word character, provided a
  \<open>>\<close> occurs later: \<open>\w+\<close> takes the longest run of word characters (the tag),
  \<open>[^>]*\<close> everything up to the first \<open>>\<close> (the attributes, line feeds included).
  When no \<open>>\<close> follows, backtracking cannot produce a match, since every position given
  back holds a character other than \<open>>\<close>. Scanning goes on behind the \<open>>\<close>.
\<close>

function replace_tags :: "string \<Rightarrow> string" where
  "replace_tags [] = []"
| "replace_tags (c # cs) =
     (if c = LT \<and> cs \<noteq> [] \<and> is_word_char (hd cs) \<and> GT \<in> set cs
      then (let tag = takeWhile is_word_char cs;
                rest = dropWhile is_word_char cs;
                attributes = takeWhile (\<lambda>x. x \<noteq> GT) rest
            in LT # tag @ replace_attribute_quotes attributes
                 @ GT # replace_tags (tl (dropWhile (\<lambda>x. x \<noteq> GT) rest)))
      else c # replace_tags cs)"
  by pat_completeness auto
termination
proof (relation "measure length")
  fix c :: char and cs :: string and x xa :: string
  assume "xa = dropWhile is_word_char cs"
  have "length (dropWhile (\<lambda>x. x \<noteq> GT) xa) \<le> length xa"
    by (rule length_dropWhile_le)
  also have "length xa \<le> length cs"
    unfolding \<open>xa = dropWhile is_word_char cs\<close> by (rule length_dropWhile_le)
  finally show "(tl (dropWhile (\<lambda>x. x \<noteq> GT) xa), c # cs) \<in> measure length"
    by simp
qed simp_all

definition cleanupText :: "string \<Rightarrow> string" where
  "cleanupText src = replace_tags (replace_line_endings src)"

text \<open>
  Predicates for stating where the two patterns match. \<open>tag_at c cs\<close> is the condition
  under which the tag pattern matches at the character \<open>c\<close> followed by \<open>cs\<close>, and
  \<open>has_tag s\<close> says that it matches somewhere in \<open>s\<close>; \<open>no_opener s\<close> says that no \<open><\<close>
  of \<open>s\<close> is directly followed, within \<open>s\<close>, by a word character. \<open>has_eq_quote s\<close> says
  that some \<open>=\<close> of \<open>s\<close> is directly followed by a double quote, \<open>has_pattern s\<close> that
  a further double quote follows such a pair, so that the attribute pattern matches
  somewhere in \<open>s\<close>. \<open>closed_values s\<close> says that, reading from the left, every \<open>="\<close>
  that opens a value finds its closing double quote within \<open>s\<close>.
\<close>

definition tag_at :: "char \<Rightarrow> string \<Rightarrow> bool" where
  "tag_at c cs \<longleftrightarrow> c = LT \<and> cs \<noteq> [] \<and> is_word_char (hd cs) \<and> GT \<in> set cs"

fun has_tag :: "string \<Rightarrow> bool" where
  "has_tag [] = False"
| "has_tag (c # cs) = (tag_at c cs \<or> has_tag cs)"

fun no_opener :: "string \<Rightarrow> bool" where
  "no_opener [] = True"
| "no_opener [c] = True"
| "no_opener (c # d # cs) = (\<not> (c = LT \<and> is_word_char d) \<and> no_opener (d # cs))"

fun has_eq_quote :: "string \<Rightarrow> bool" where
  "has_eq_quote [] = False"
| "has_eq_quote [c] = False"
| "has_eq_quote (c # d # cs) = ((c = EQUALS \<and> d = DQUOTE) \<or> has_eq_quote (d # cs))"

fun has_pattern :: "string \<Rightarrow> bool" where
  "has_pattern [] = False"
| "has_pattern [c] = False"
| "has_pattern (c # d # cs) =
     ((c = EQUALS \<and> d = DQUOTE \<and> DQUOTE \<in> set cs) \<or> has_pattern (d # cs))"



section \<open>Configuration values, metadata and thrown values\<close>

text \<open>
  A configuration fragment is an untyped nested mapping from string keys to values. An
  object is an association list; reading a property is \<^const>\<open>map_of\<close> (\<^const>\<open>None\<close> is
  \<open>undefined\<close>), writing one is \<^const>\<open>AList.update\<close>. Arrays are objects keyed by their
  indices: the code below only tests such values for truthiness and assigns properties.
  Numbers are integers here, since only the test against zero matters.
\<close>

datatype json = JNull | JBool bool | JNum int | JStr string | JObj "(string \<times> json) list"

type_synonym obj = "(string \<times> json) list"

fun truthy :: "json \<Rightarrow> bool" where
  "truthy JNull = False"
| "truthy (JBool b) = b"
| "truthy (JNum n) = (n \<noteq> 0)"
| "truthy (JStr s) = (s \<noteq> [])"
| "truthy (JObj ps) = True"

text \<open>
  Values that are thrown (or with which a promise rejects). \<open>TypeError\<close> is what a strict-mode
  module raises when a property is assigned on a primitive; \<open>Thrown\<close> stands for any other
  value a collaborator throws.
\<close>

datatype error =
    UnknownDiagramError string
  | DiagramNotFoundError string
  | RegistrationConflict string
  | TypeError string
  | Thrown string

text \<open>\<open>DiagramMetadata\<close>: every field is optional.\<close>

record metadata =
  title :: "string option"
  displayMode :: "string option"
  config :: "obj option"

text \<open>The value \<open>preprocessDiagram\<close> returns: \<open>DiagramMetadata & { code: string }\<close>.\<close>

record preprocessed = metadata +
  code :: string


section \<open>The preprocessing pipeline\<close>

text \<open>
  The functions imported from \<open>./diagram-api/comments.js\<close>, \<open>./diagram-api/frontmatter.js\<close>
  and \<open>./utils.js\<close> are parameters of the model, collected in one record. Front-matter
  extraction and init-directive detection parse embedded metadata and may throw. The
  source text, called \<open>code\<close> in the program, is \<open>src\<close> here.
\<close>

record extracted =
  efm_text :: string
  efm_metadata :: metadata

record directive =
  directive_type :: "string option"
  directive_args :: json

text \<open>\<open>detectDirective\<close> returns \<open>Directive | Directive[]\<close>; the code also guards against
  a nullish result (\<open>wrapDirectives?.type\<close>).\<close>

datatype detected = Nullish | Single directive | Array "directive list"

record collaborators =
  extractFrontMatter :: "string \<Rightarrow> error + extracted"
  detectInit :: "string \<Rightarrow> error + obj option"
  detectDirective :: "string \<Rightarrow> string \<Rightarrow> detected"
  removeDirectives :: "string \<Rightarrow> string"
  cleanAndMerge :: "obj \<Rightarrow> obj \<Rightarrow> obj"
  cleanupComments :: "string \<Rightarrow> string"

text \<open>The object \<open>{ title, config, text }\<close> returned by \<open>processFrontmatter\<close>.\<close>

record frontMatterResult =
  fm_title :: "string option"
  fm_config :: obj
  fm_text :: string

text \<open>
  \<open>if (displayMode)\<close> tests truthiness: the empty string counts as absent. \<open>!config.gantt\<close>
  holds for a missing or falsy entry, which is then replaced by \<open>{}\<close>. The assignment
  \<open>config.gantt.displayMode = displayMode\<close> updates an object and throws a \<open>TypeError\<close> on
  a truthy primitive.
\<close>

definition processFrontmatter :: "collaborators \<Rightarrow> string \<Rightarrow> error + frontMatterResult" where
  "processFrontmatter c src =
     (case extractFrontMatter c src of
        Inl e \<Rightarrow> Inl e
      | Inr r \<Rightarrow>
          (let m = efm_metadata r;
               config0 = (case config m of None \<Rightarrow> [] | Some cfg \<Rightarrow> cfg)
           in case displayMode m of
                None \<Rightarrow> Inr \<lparr>fm_title = title m, fm_config = config0, fm_text = efm_text r\<rparr>
              | Some dm \<Rightarrow>
                  if dm = [] then Inr \<lparr>fm_title = title m, fm_config = config0, fm_text = efm_text r\<rparr>
                  else
                    (let config1 =
                           (if (case map_of config0 ''gantt'' of None \<Rightarrow> True | Some g \<Rightarrow> \<not> truthy g)
                            then AList.update ''gantt'' (JObj []) config0 else config0)
                     in case map_of config1 ''gantt'' of
                          Some (JObj g) \<Rightarrow>
                            Inr \<lparr>fm_title = title m,
                                 fm_config = AList.update ''gantt''
                                   (JObj (AList.update ''displayMode'' (JStr dm) g)) config1,
                                 fm_text = efm_text r\<rparr>
                        | _ \<Rightarrow> Inl (TypeError ''Cannot create property displayMode''))))"

text \<open>The object \<open>{ text, directive }\<close> returned by \<open>processDirectives\<close>.\<close>

record directiveResult =
  dr_text :: string
  dr_directive :: obj

definition processDirectives :: "collaborators \<Rightarrow> string \<Rightarrow> error + directiveResult" where
  "processDirectives c src =
     (case detectInit c src of
        Inl e \<Rightarrow> Inl e
      | Inr i \<Rightarrow>
          (let initDirective = (case i of None \<Rightarrow> [] | Some d \<Rightarrow> d);
               wrapDirectives = detectDirective c src ''wrap'';
               initDirective' =
                 (case wrapDirectives of
                    Array ds \<Rightarrow>
                      AList.update ''wrap''
                        (JBool (list_ex (\<lambda>d. directive_type d = Some ''wrap'') ds)) initDirective
                  | Single d \<Rightarrow>
                      if directive_type d = Some ''wrap''
                      then AList.update ''wrap'' (JBool True) initDirective else initDirective
                  | Nullish \<Rightarrow> initDirective)
           in Inr \<lparr>dr_text = removeDirectives c src, dr_directive = initDirective'\<rparr>))"

definition preprocessDiagram :: "collaborators \<Rightarrow> string \<Rightarrow> error + preprocessed" where
  "preprocessDiagram c src =
     (let cleanedCode = cleanupText src
      in case processFrontmatter c cleanedCode of
           Inl e \<Rightarrow> Inl e
         | Inr frontMatterResult \<Rightarrow>
             (case processDirectives c (fm_text frontMatterResult) of
                Inl e \<Rightarrow> Inl e
              | Inr directiveResult \<Rightarrow>
                  Inr \<lparr>title = fm_title frontMatterResult,
                       displayMode = None,
                       config = Some (cleanAndMerge c (fm_config frontMatterResult)
                                        (dr_directive directiveResult)),
                       code = cleanupComments c (dr_text directiveResult)\<rparr>))"

text \<open>
  Collaborators that answer with fixed values whatever the text, leave the text as it is
  and merge by updating the first fragment with each entry of the second: an instance at
  which the statements below are evaluated.
\<close>

definition fixed_collaborators :: "extracted \<Rightarrow> obj option \<Rightarrow> detected \<Rightarrow> collaborators" where
  "fixed_collaborators r i w =
     \<lparr>extractFrontMatter = (\<lambda>_. Inr r),
      detectInit = (\<lambda>_. Inr i),
      detectDirective = (\<lambda>_ _. w),
      removeDirectives = (\<lambda>t. t),
      cleanAndMerge = (\<lambda>a b. fold (\<lambda>(k, v). AList.update k v) b a),
      cleanupComments = (\<lambda>t. t)\<rparr>"


text \<open>The diagram body of the specification's round-trip scenario.\<close>

definition round_trip_body :: string where
  "round_trip_body = ''flowchart TD'' @ [LF] @ ''A-->B''"

text \<open>A legacy gantt text whose front matter only sets \<open>displayMode\<close>.\<close>

definition legacy_front_matter :: string where
  "legacy_front_matter =
     ''---'' @ [LF] @ ''displayMode: compact'' @ [LF] @ ''---'' @ [LF] @ ''gantt''"


section \<open>Diagram resolution (\<open>Diagram.fromText\<close>)\<close>

text \<open>
  A diagram definition \<open>{ db, parser, renderer, init? }\<close>. The optional members are
  capabilities that are present or not; \<open>parse\<close> gives the value with which
  \<open>parser.parse(text)\<close> rejects, if it does.
\<close>

record diagram_db =
  db_name :: string
  has_clear :: bool
  has_setDiagramTitle :: bool

record diagram_parser =
  parser_name :: string
  has_parser :: bool
  parse :: "string \<Rightarrow> error option"

record DiagramDefinition =
  db :: diagram_db
  parser :: diagram_parser
  renderer :: string
  has_init :: bool

text \<open>
  The effects of a call are recorded, in order, in a trace: loader invocations,
  registrations, and the calls into the definition.
\<close>

datatype event =
    LoaderCalled string
  | RegisterCalled string
  | YYSet string string
  | ClearCalled string
  | InitCalled string
  | SetDiagramTitleCalled string string
  | ParseCalled string string

text \<open>
  A loader is asynchronous and resolves to \<open>{ id, diagram }\<close> or rejects; its outcome may
  depend on what happened before, so a load that failed can succeed when retried.
\<close>

type_synonym loader = "event list \<Rightarrow> error + (string \<times> DiagramDefinition)"

text \<open>
  The process-wide state and the imported collaborators of \<open>Diagram.ts\<close>: the current
  configuration (\<open>configApi.getConfig()\<close>), \<open>detectType\<close>, \<open>encodeEntities\<close>, the
  registry of definitions and the loaders.
\<close>

record world =
  getConfig :: obj
  detectType :: "string \<Rightarrow> obj \<Rightarrow> error + string"
  encodeEntities :: "string \<Rightarrow> string"
  diagrams :: "(string \<times> DiagramDefinition) list"
  loaders :: "(string \<times> loader) list"
  trace :: "event list"

text \<open>
  Modelled from the spec: \<open>getDiagram\<close> of \<open>diagram-api/diagramAPI.js\<close> is not among the
  sources. The registry maps a type tag to its definition; looking up a tag that is not
  registered throws.
\<close>

definition getDiagram :: "string \<Rightarrow> world \<Rightarrow> error + DiagramDefinition" where
  "getDiagram name w =
     (case map_of (diagrams w) name of
        Some d \<Rightarrow> Inr d
      | None \<Rightarrow> Inl (DiagramNotFoundError name))"

text \<open>
  Modelled from the spec: \<open>getDiagramLoader\<close> of \<open>diagram-api/detectType.js\<close> is not among
  the sources. It yields the loader of a type tag, or none.
\<close>

definition getDiagramLoader :: "string \<Rightarrow> world \<Rightarrow> loader option" where
  "getDiagramLoader key w = map_of (loaders w) key"

text \<open>
  Modelled from the spec: \<open>registerDiagram\<close> of \<open>diagram-api/diagramAPI.js\<close> is not among
  the sources. Registering is idempotent: the same definition under the same id again is
  a no-op, a different definition under a registered id is a conflict and an error.
\<close>

definition registerDiagram :: "string \<Rightarrow> DiagramDefinition \<Rightarrow> world \<Rightarrow> error option \<times> world" where
  "registerDiagram ident d w =
     (let w1 = w\<lparr>trace := trace w @ [RegisterCalled ident]\<rparr>
      in case map_of (diagrams w) ident of
           None \<Rightarrow> (None, w1\<lparr>diagrams := diagrams w @ [(ident, d)]\<rparr>)
         | Some d0 \<Rightarrow> if d0 = d then (None, w1) else (Some (RegistrationConflict ident), w1))"

text \<open>The facade object built by the private constructor.\<close>

record Diagram =
  diagram_type :: string
  diagram_text :: string
  diagram_db :: diagram_db
  diagram_parser :: diagram_parser
  diagram_renderer :: string

text \<open>
  The statement \<open>try { getDiagram(type) } catch { ... }\<close>: nothing happens when the lookup
  succeeds; otherwise the loader is fetched, \<open>UnknownDiagramError\<close> is thrown when there is
  none, and else the loader is awaited and its result registered.
\<close>

definition try_getDiagram :: "string \<Rightarrow> world \<Rightarrow> error option \<times> world" where
  "try_getDiagram ty w =
     (case getDiagram ty w of
        Inr _ \<Rightarrow> (None, w)
      | Inl _ \<Rightarrow>
          (case getDiagramLoader ty w of
             None \<Rightarrow> (Some (UnknownDiagramError (''Diagram '' @ ty @ '' not found.'')), w)
           | Some loader \<Rightarrow>
               (let w1 = w\<lparr>trace := trace w @ [LoaderCalled ty]\<rparr>
                in case loader (trace w) of
                     Inl e \<Rightarrow> (Some e, w1)
                   | Inr (ident, diagram) \<Rightarrow> registerDiagram ident diagram w1)))"

text \<open>
  \<open>Diagram.fromText(text, metadata)\<close>; \<open>md_title\<close> is \<open>metadata.title\<close>, which counts when
  it is truthy. A rejected promise is an \<^const>\<open>Inl\<close>.
\<close>

definition fromText :: "string \<Rightarrow> string option \<Rightarrow> world \<Rightarrow> (error + Diagram) \<times> world" where
  "fromText text0 md_title w =
     (case detectType w text0 (getConfig w) of
        Inl e \<Rightarrow> (Inl e, w)
      | Inr ty \<Rightarrow>
          (let txt = encodeEntities w text0 @ [LF]
           in case try_getDiagram ty w of
                (Some e, w1) \<Rightarrow> (Inl e, w1)
              | (None, w1) \<Rightarrow>
                  (case getDiagram ty w1 of
                     Inl e \<Rightarrow> (Inl e, w1)
                   | Inr d \<Rightarrow>
                       (let yy = (if has_parser (parser d)
                                  then [YYSet (parser_name (parser d)) (db_name (db d))] else []);
                            clear = (if has_clear (db d) then [ClearCalled (db_name (db d))] else []);
                            init = (if has_init d then [InitCalled ty] else []);
                            setTitle =
                              (case md_title of
                                 None \<Rightarrow> []
                               | Some t \<Rightarrow>
                                   if t \<noteq> [] \<and> has_setDiagramTitle (db d)
                                   then [SetDiagramTitleCalled (db_name (db d)) t] else []);
                            w2 = w1\<lparr>trace := trace w1 @ yy @ clear @ init @ setTitle
                                            @ [ParseCalled (parser_name (parser d)) txt]\<rparr>
                        in case parse (parser d) txt of
                             Some e \<Rightarrow> (Inl e, w2)
                           | None \<Rightarrow>
                               (Inr \<lparr>diagram_type = ty, diagram_text = txt,
                                     diagram_db = db d, diagram_parser = parser d,
                                     diagram_renderer = renderer d\<rparr>, w2)))))"

text \<open>The loader invocations for a tag, the registrations and the parsed texts of a trace.\<close>

fun loads_of :: "string \<Rightarrow> event list \<Rightarrow> nat" where
  "loads_of ty [] = 0"
| "loads_of ty (LoaderCalled t # es) = (if t = ty then Suc (loads_of ty es) else loads_of ty es)"
| "loads_of ty (e # es) = loads_of ty es"

fun registrations :: "event list \<Rightarrow> string list" where
  "registrations [] = []"
| "registrations (RegisterCalled i # es) = i # registrations es"
| "registrations (e # es) = registrations es"

fun parsed_texts :: "event list \<Rightarrow> string list" where
  "parsed_texts [] = []"
| "parsed_texts (ParseCalled p t # es) = t # parsed_texts es"
| "parsed_texts (e # es) = parsed_texts es"

text \<open>The calls into a resolved definition, up to and including \<open>parser.parse\<close>.\<close>

definition definition_calls ::
    "string \<Rightarrow> DiagramDefinition \<Rightarrow> string option \<Rightarrow> string \<Rightarrow> event list" where
  "definition_calls ty d md_title txt =
     (if has_parser (parser d) then [YYSet (parser_name (parser d)) (db_name (db d))] else [])
     @ (if has_clear (db d) then [ClearCalled (db_name (db d))] else [])
     @ (if has_init d then [InitCalled ty] else [])
     @ (case md_title of
          None \<Rightarrow> []
        | Some t \<Rightarrow> if t \<noteq> [] \<and> has_setDiagramTitle (db d)
                    then [SetDiagramTitleCalled (db_name (db d)) t] else [])
     @ [ParseCalled (parser_name (parser d)) txt]"

text \<open>
  A process state at which the statements below are evaluated: the flowchart definition
  is registered, the pie definition has a loader whose first invocation rejects, the type
  tag is the leading word of the text and entity encoding finds nothing to encode.
\<close>

definition flowchart_definition :: DiagramDefinition where
  "flowchart_definition =
     \<lparr>db = \<lparr>db_name = ''flowDb'', has_clear = True, has_setDiagramTitle = True\<rparr>,
      parser = \<lparr>parser_name = ''flowParser'', has_parser = True, parse = (\<lambda>_. None)\<rparr>,
      renderer = ''flowRenderer'', has_init = True\<rparr>"

definition pie_definition :: DiagramDefinition where
  "pie_definition =
     \<lparr>db = \<lparr>db_name = ''pieDb'', has_clear = True, has_setDiagramTitle = False\<rparr>,
      parser = \<lparr>parser_name = ''pieParser'', has_parser = False, parse = (\<lambda>_. None)\<rparr>,
      renderer = ''pieRenderer'', has_init = False\<rparr>"

definition example_world :: world where
  "example_world =
     \<lparr>getConfig = [],
      detectType = (\<lambda>t cfg. if takeWhile is_word_char t = []
                             then Inl (UnknownDiagramError ''No diagram type detected'')
                             else Inr (takeWhile is_word_char t)),
      encodeEntities = (\<lambda>t. t),
      diagrams = [(''flowchart'', flowchart_definition)],
      loaders = [(''pie'', \<lambda>tr. if loads_of ''pie'' tr = 0 then Inl (Thrown ''load failed'')
                                 else Inr (''pie'', pie_definition))],
      trace = []\<rparr>"


section \<open>Properties of text normalisation\<close>

subsection \<open>Line endings and the attribute rewrite\<close>

lemma word_char_facts [simp]:
  "\<not> is_word_char GT" "\<not> is_word_char LT" "\<not> is_word_char EQUALS"
  "\<not> is_word_char DQUOTE" "\<not> is_word_char SQUOTE" "\<not> is_word_char CR" "\<not> is_word_char LF"
  by (simp_all add: is_word_char_def)

lemma line_endings_no_CR: "CR \<notin> set (replace_line_endings s)"
  by (induction s rule: replace_line_endings.induct) auto

lemma line_endings_id: "CR \<notin> set s \<Longrightarrow> replace_line_endings s = s"
  by (induction s rule: replace_line_endings.induct) auto

lemma attr_quotes_set: "set (replace_attribute_quotes s) \<subseteq> insert SQUOTE (set s)"
proof (induction s rule: replace_attribute_quotes.induct)
  case (3 c d cs)
  have a: "set (takeWhile (\<lambda>x. x \<noteq> DQUOTE) cs) \<subseteq> set cs"
    by (auto dest: set_takeWhileD)
  have b: "set (tl (dropWhile (\<lambda>x. x \<noteq> DQUOTE) cs)) \<subseteq> set cs"
    by (metis list.set_sel(2) set_dropWhileD subsetI tl_Nil)
  show ?case
  proof (cases "c = EQUALS \<and> d = DQUOTE \<and> DQUOTE \<in> set cs")
    case True
    with 3(1) a b show ?thesis by auto
  next
    case False
    with 3(2) show ?thesis by auto
  qed
qed simp_all

lemma attr_quotes_hd: "\<exists>r. replace_attribute_quotes (c # cs) = c # r"
  by (cases cs) auto

lemma attr_quotes_Nil_iff [simp]: "replace_attribute_quotes s = [] \<longleftrightarrow> s = []"
  using attr_quotes_hd by (cases s) (auto, metis list.distinct(1))

lemma attr_quotes_no_eq: "EQUALS \<notin> set xs \<Longrightarrow> replace_attribute_quotes (xs @ ys) = xs @ replace_attribute_quotes ys"
proof (induction xs)
  case (Cons x xs)
  then show ?case by (cases "xs @ ys") auto
qed simp

lemma attr_quotes_inert:
  "DQUOTE \<notin> set xs \<Longrightarrow> xs = [] \<or> last xs \<noteq> EQUALS \<Longrightarrow>
   replace_attribute_quotes (xs @ ys) = xs @ replace_attribute_quotes ys"
proof (induction xs)
  case (Cons x xs)
  show ?case
  proof (cases xs)
    case Nil
    with Cons.prems show ?thesis by (cases ys) auto
  next
    case (Cons z zs)
    with Cons.prems Cons.IH show ?thesis by auto
  qed
qed simp

lemma attr_quotes_no_dquote: "DQUOTE \<notin> set xs \<Longrightarrow> replace_attribute_quotes xs = xs"
  by (induction xs rule: replace_attribute_quotes.induct) auto

lemma attr_quotes_idem: "replace_attribute_quotes (replace_attribute_quotes s) = replace_attribute_quotes s"
proof (induction s rule: replace_attribute_quotes.induct)
  case (3 c d cs)
  show ?case
  proof (cases "c = EQUALS \<and> d = DQUOTE \<and> DQUOTE \<in> set cs")
    case True
    let ?v = "takeWhile (\<lambda>x. x \<noteq> DQUOTE) cs"
    let ?r = "replace_attribute_quotes (tl (dropWhile (\<lambda>x. x \<noteq> DQUOTE) cs))"
    have v: "DQUOTE \<notin> set (SQUOTE # ?v @ [SQUOTE])"
      by (auto dest: set_takeWhileD)
    have "replace_attribute_quotes (EQUALS # (SQUOTE # ?v @ [SQUOTE]) @ ?r)
            = EQUALS # replace_attribute_quotes ((SQUOTE # ?v @ [SQUOTE]) @ ?r)"
      by simp
    also have "\<dots> = EQUALS # (SQUOTE # ?v @ [SQUOTE]) @ replace_attribute_quotes ?r"
      using v by (subst attr_quotes_inert) auto
    finally show ?thesis using True 3(1) by simp
  next
    case False
    obtain r where r: "replace_attribute_quotes (d # cs) = d # r"
      using attr_quotes_hd by blast
    have q: "\<not> (c = EQUALS \<and> d = DQUOTE \<and> DQUOTE \<in> set r)"
    proof
      assume a: "c = EQUALS \<and> d = DQUOTE \<and> DQUOTE \<in> set r"
      with False have n: "DQUOTE \<notin> set cs" by simp
      from a have "replace_attribute_quotes (d # cs) = d # replace_attribute_quotes cs"
        by (cases cs) auto
      with r n have "r = cs" by (simp add: attr_quotes_no_dquote)
      with a n show False by simp
    qed
    have "replace_attribute_quotes (c # d # r) = c # replace_attribute_quotes (d # r)"
      using q by auto
    with False r 3(2) show ?thesis by auto
  qed
qed simp_all

subsection \<open>The tag rewrite\<close>

text \<open>The defining equation of \<open>replace_tags\<close>, split into its two cases.\<close>

lemma tags_hit:
  "tag_at c cs \<Longrightarrow> replace_tags (c # cs) =
     LT # takeWhile is_word_char cs
       @ replace_attribute_quotes (takeWhile (\<lambda>x. x \<noteq> GT) (dropWhile is_word_char cs))
       @ GT # replace_tags (tl (dropWhile (\<lambda>x. x \<noteq> GT) (dropWhile is_word_char cs)))"
  by (simp add: tag_at_def Let_def)

lemma tags_miss: "\<not> tag_at c cs \<Longrightarrow> replace_tags (c # cs) = c # replace_tags cs"
  unfolding tag_at_def by (subst replace_tags.simps) (simp only: if_False)

declare replace_tags.simps(2) [simp del]

lemma tags_set: "set (replace_tags s) \<subseteq> insert SQUOTE (set s)"
proof (induction s rule: replace_tags.induct)
  case (2 c cs)
  let ?rest = "dropWhile is_word_char cs"
  have a: "set (takeWhile is_word_char cs) \<subseteq> set cs"
    by (auto dest: set_takeWhileD)
  have b: "set (takeWhile (\<lambda>x. x \<noteq> GT) ?rest) \<subseteq> set cs"
    by (auto dest!: set_takeWhileD set_dropWhileD)
  have c: "set (tl (dropWhile (\<lambda>x. x \<noteq> GT) ?rest)) \<subseteq> set cs"
    by (metis list.set_sel(2) set_dropWhileD subsetI tl_Nil)
  show ?case
  proof (cases "tag_at c cs")
    case True
    then have t: "c = LT \<and> cs \<noteq> [] \<and> is_word_char (hd cs) \<and> GT \<in> set cs"
      by (simp add: tag_at_def)
    have ih: "set (replace_tags (tl (dropWhile (\<lambda>x. x \<noteq> GT) ?rest)))
                \<subseteq> insert SQUOTE (set (tl (dropWhile (\<lambda>x. x \<noteq> GT) ?rest)))"
      by (rule 2(1)[OF t refl refl refl])
    have q: "set (replace_attribute_quotes (takeWhile (\<lambda>x. x \<noteq> GT) ?rest))
               \<subseteq> insert SQUOTE (set cs)"
      using attr_quotes_set[of "takeWhile (\<lambda>x. x \<noteq> GT) ?rest"] b by blast
    have "set (replace_tags (c # cs)) \<subseteq> insert SQUOTE (insert c (set cs))"
      unfolding tags_hit[OF True] using t a q ih c by auto
    then show ?thesis by simp
  next
    case False
    then have "\<not> (c = LT \<and> cs \<noteq> [] \<and> is_word_char (hd cs) \<and> GT \<in> set cs)"
      by (simp add: tag_at_def)
    from 2(2)[OF this] show ?thesis unfolding tags_miss[OF False] by auto
  qed
qed simp

lemma tags_hd: "\<exists>r. replace_tags (c # cs) = c # r"
  by (cases "tag_at c cs") (auto simp: tags_hit tags_miss tag_at_def)

lemma tags_Nil_iff [simp]: "replace_tags s = [] \<longleftrightarrow> s = []"
  using tags_hd by (cases s) (auto, metis list.distinct(1))

lemma tags_no_gt: "GT \<notin> set s \<Longrightarrow> replace_tags s = s"
  by (induction s) (auto simp: tags_miss tag_at_def)


lemma takeWhile_stop: "\<not> P y \<Longrightarrow> takeWhile P (xs @ y # ys) = takeWhile P xs"
  by (induction xs) auto

lemma dropWhile_stop: "\<not> P y \<Longrightarrow> dropWhile P (xs @ y # ys) = dropWhile P xs @ y # ys"
  by (induction xs) auto

lemma tags_match:
  assumes "tag \<noteq> []" "\<forall>x\<in>set tag. is_word_char x" "GT \<notin> set attrs"
  shows "replace_tags (LT # tag @ attrs @ GT # post)
           = LT # tag @ replace_attribute_quotes attrs @ GT # replace_tags post"
proof -
  let ?cs = "tag @ attrs @ GT # post"
  let ?w = "takeWhile is_word_char attrs"
  let ?a = "dropWhile is_word_char attrs"
  have hit: "tag_at LT ?cs"
    using assms by (cases tag) (auto simp: tag_at_def)
  have tw: "takeWhile is_word_char ?cs = tag @ ?w"
    using assms(2) by (simp add: takeWhile_stop)
  have dw: "dropWhile is_word_char ?cs = ?a @ GT # post"
    using assms(2) by (simp add: dropWhile_stop)
  have gt: "GT \<notin> set ?a"
    using assms(3) by (auto dest: set_dropWhileD)
  have at: "takeWhile (\<lambda>x. x \<noteq> GT) (?a @ GT # post) = ?a"
    using gt by (simp add: takeWhile_append)
  have af: "dropWhile (\<lambda>x. x \<noteq> GT) (?a @ GT # post) = GT # post"
    using gt by (simp add: dropWhile_append)
  have "EQUALS \<notin> set ?w"
    by (auto dest!: set_takeWhileD)
  then have "replace_attribute_quotes (?w @ ?a) = ?w @ replace_attribute_quotes ?a"
    by (rule attr_quotes_no_eq)
  then have ra: "replace_attribute_quotes attrs = ?w @ replace_attribute_quotes ?a"
    by simp
  show ?thesis
    unfolding tags_hit[OF hit] tw dw at af ra by simp
qed

lemma tags_idem: "replace_tags (replace_tags s) = replace_tags s"
proof (induction s rule: replace_tags.induct)
  case (2 c cs)
  let ?tag = "takeWhile is_word_char cs"
  let ?rest = "dropWhile is_word_char cs"
  let ?attrs = "takeWhile (\<lambda>x. x \<noteq> GT) ?rest"
  let ?post = "tl (dropWhile (\<lambda>x. x \<noteq> GT) ?rest)"
  show ?case
  proof (cases "tag_at c cs")
    case True
    then have t: "c = LT \<and> cs \<noteq> [] \<and> is_word_char (hd cs) \<and> GT \<in> set cs"
      by (simp add: tag_at_def)
    have ih: "replace_tags (replace_tags ?post) = replace_tags ?post"
      by (rule 2(1)[OF t refl refl refl])
    from t have ne: "?tag \<noteq> []" by (cases cs) auto
    have w: "\<forall>x\<in>set ?tag. is_word_char x"
      by (auto dest: set_takeWhileD)
    have "GT \<notin> set ?attrs" by (auto dest: set_takeWhileD)
    then have g: "GT \<notin> set (replace_attribute_quotes ?attrs)"
      using attr_quotes_set[of ?attrs] by auto
    show ?thesis
      unfolding tags_hit[OF True] tags_match[OF ne w g] attr_quotes_idem ih ..
  next
    case False
    then have f: "\<not> (c = LT \<and> cs \<noteq> [] \<and> is_word_char (hd cs) \<and> GT \<in> set cs)"
      by (simp add: tag_at_def)
    have "\<not> tag_at c (replace_tags cs)"
    proof
      assume a: "tag_at c (replace_tags cs)"
      then have ne: "cs \<noteq> []" by (auto simp: tag_at_def)
      then obtain x xs where cs: "cs = x # xs" by (cases cs) auto
      obtain r where r: "replace_tags (x # xs) = x # r" using tags_hd by blast
      from a have "GT \<in> set (replace_tags cs)" by (simp add: tag_at_def)
      then have "GT \<in> set cs" using tags_set[of cs] by auto
      with a cs r False show False by (auto simp: tag_at_def)
    qed
    then show ?thesis
      unfolding tags_miss[OF False] using 2(2)[OF f] by (simp add: tags_miss)
  qed
qed simp

text \<open>
  Claim C5. Text normalisation is idempotent: normalising a normalised text changes
  nothing, for every input text.
\<close>

theorem cleanupText_idempotent: "cleanupText (cleanupText x) = cleanupText x"
proof -
  have "CR \<notin> set (replace_tags (replace_line_endings x))"
    using tags_set[of "replace_line_endings x"] line_endings_no_CR[of x] by auto
  then show ?thesis
    by (simp add: cleanupText_def line_endings_id tags_idem)
qed

subsection \<open>Where the quote rewrite applies\<close>

lemma tags_no_opener: "no_opener pre \<Longrightarrow> replace_tags pre = pre"
  by (induction pre rule: no_opener.induct) (auto simp: tags_miss tag_at_def)

lemma tags_before_opener:
  "no_opener pre \<Longrightarrow> replace_tags (pre @ LT # ys) = pre @ replace_tags (LT # ys)"
  by (induction pre rule: no_opener.induct) (auto simp: tags_miss tag_at_def)

lemma tags_no_tag: "\<not> has_tag s \<Longrightarrow> replace_tags s = s"
  by (induction s) (auto simp: tags_miss)

lemma attr_quotes_no_pattern: "\<not> has_pattern q \<Longrightarrow> replace_attribute_quotes q = q"
  by (induction q rule: has_pattern.induct) auto

lemma attr_quotes_before_eq:
  "\<not> has_eq_quote a \<Longrightarrow>
   replace_attribute_quotes (a @ EQUALS # ys) = a @ replace_attribute_quotes (EQUALS # ys)"
  by (induction a rule: has_eq_quote.induct) auto

lemma attr_quotes_first_pattern:
  assumes "\<not> has_eq_quote a" and "DQUOTE \<notin> set v"
  shows "replace_attribute_quotes (a @ EQUALS # DQUOTE # v @ DQUOTE # b)
           = a @ EQUALS # SQUOTE # v @ SQUOTE # replace_attribute_quotes b"
proof -
  have "takeWhile (\<lambda>x. x \<noteq> DQUOTE) (v @ DQUOTE # b) = v"
    "dropWhile (\<lambda>x. x \<noteq> DQUOTE) (v @ DQUOTE # b) = DQUOTE # b"
    using assms(2) by (auto simp: takeWhile_stop dropWhile_stop)
  then have "replace_attribute_quotes (EQUALS # DQUOTE # v @ DQUOTE # b)
               = EQUALS # SQUOTE # v @ SQUOTE # replace_attribute_quotes b"
    by simp
  with attr_quotes_before_eq[OF assms(1), of "DQUOTE # v @ DQUOTE # b"] show ?thesis by simp
qed





lemma has_tag_split:
  "has_tag s \<Longrightarrow> \<exists>pre tag attrs post. s = pre @ LT # tag @ attrs @ GT # post
      \<and> tag \<noteq> [] \<and> (\<forall>x\<in>set tag. is_word_char x) \<and> no_opener pre \<and> GT \<notin> set attrs"
proof (induction s)
  case (Cons c cs)
  show ?case
  proof (cases "tag_at c cs")
    case True
    let ?tag = "takeWhile is_word_char cs"
    let ?rest = "dropWhile is_word_char cs"
    let ?attrs = "takeWhile (\<lambda>x. x \<noteq> GT) ?rest"
    let ?post = "tl (dropWhile (\<lambda>x. x \<noteq> GT) ?rest)"
    from True have t: "c = LT" "cs \<noteq> []" "is_word_char (hd cs)" "GT \<in> set cs"
      by (simp_all add: tag_at_def)
    have "GT \<in> set ?rest"
      using t(4) by (metis word_char_facts(1) set_dropWhileD takeWhile_dropWhile_id set_append UnE set_takeWhileD)
    then have "dropWhile (\<lambda>x. x \<noteq> GT) ?rest \<noteq> []"
      by (simp add: dropWhile_eq_Nil_conv)
    then have "dropWhile (\<lambda>x. x \<noteq> GT) ?rest \<noteq> []" "hd (dropWhile (\<lambda>x. x \<noteq> GT) ?rest) = GT"
      using hd_dropWhile[of "\<lambda>x. x \<noteq> GT" ?rest] by simp_all
    then have "dropWhile (\<lambda>x. x \<noteq> GT) ?rest = GT # ?post"
      by (cases "dropWhile (\<lambda>x. x \<noteq> GT) ?rest") auto
    then have "?rest = ?attrs @ GT # ?post"
      by (metis takeWhile_dropWhile_id)
    then have "c # cs = [] @ LT # ?tag @ ?attrs @ GT # ?post"
      using t(1) by (metis append_Nil takeWhile_dropWhile_id)
    moreover have "?tag \<noteq> []" using t(2,3) by (cases cs) auto
    moreover have "\<forall>x\<in>set ?tag. is_word_char x" by (auto dest: set_takeWhileD)
    moreover have "GT \<notin> set ?attrs" by (auto dest: set_takeWhileD)
    ultimately show ?thesis by (metis no_opener.simps(1))
  next
    case False
    with Cons.prems have "has_tag cs" by simp
    from Cons.IH[OF this] obtain pre tag attrs post where
      s: "cs = pre @ LT # tag @ attrs @ GT # post" and
      r: "tag \<noteq> []" "\<forall>x\<in>set tag. is_word_char x" "no_opener pre" "GT \<notin> set attrs"
      by blast
    have "no_opener (c # pre)"
    proof (cases pre)
      case Nil
      then show ?thesis by simp
    next
      case (Cons d ds)
      with s False have "\<not> (c = LT \<and> is_word_char d)"
        by (auto simp: tag_at_def)
      with Cons r(3) show ?thesis by simp
    qed
    with s r have "c # cs = (c # pre) @ LT # tag @ attrs @ GT # post \<and> tag \<noteq> []
        \<and> (\<forall>x\<in>set tag. is_word_char x) \<and> no_opener (c # pre) \<and> GT \<notin> set attrs"
      by simp
    then show ?thesis by blast
  qed
qed simp

lemma has_pattern_quote: "has_pattern q \<Longrightarrow> DQUOTE \<in> set (tl q)"
  by (induction q rule: has_pattern.induct) auto

lemma has_pattern_split:
  "has_pattern q \<Longrightarrow> \<exists>a v b. q = a @ EQUALS # DQUOTE # v @ DQUOTE # b
      \<and> \<not> has_eq_quote a \<and> DQUOTE \<notin> set v"
proof (induction q rule: has_pattern.induct)
  case (3 c d cs)
  show ?case
  proof (cases "c = EQUALS \<and> d = DQUOTE")
    case True
    have q: "DQUOTE \<in> set cs"
    proof (cases "DQUOTE \<in> set cs")
      case False
      with True have "\<not> has_pattern (d # cs)"
        using has_pattern_quote[of "d # cs"] by auto
      with 3(2) True False show ?thesis by simp
    qed
    let ?v = "takeWhile (\<lambda>x. x \<noteq> DQUOTE) cs"
    from q have "dropWhile (\<lambda>x. x \<noteq> DQUOTE) cs \<noteq> []"
      by (simp add: dropWhile_eq_Nil_conv)
    then have "dropWhile (\<lambda>x. x \<noteq> DQUOTE) cs \<noteq> []" "hd (dropWhile (\<lambda>x. x \<noteq> DQUOTE) cs) = DQUOTE"
      using hd_dropWhile[of "\<lambda>x. x \<noteq> DQUOTE" cs] by simp_all
    then have "dropWhile (\<lambda>x. x \<noteq> DQUOTE) cs = DQUOTE # tl (dropWhile (\<lambda>x. x \<noteq> DQUOTE) cs)"
      by (cases "dropWhile (\<lambda>x. x \<noteq> DQUOTE) cs") auto
    then have "cs = ?v @ DQUOTE # tl (dropWhile (\<lambda>x. x \<noteq> DQUOTE) cs)"
      by (metis takeWhile_dropWhile_id)
    then have "c # d # cs = [] @ EQUALS # DQUOTE # ?v @ DQUOTE # tl (dropWhile (\<lambda>x. x \<noteq> DQUOTE) cs)"
      using True by simp
    moreover have "DQUOTE \<notin> set ?v" by (auto dest: set_takeWhileD)
    ultimately show ?thesis by (metis has_eq_quote.simps(1))
  next
    case False
    with 3(2) have "has_pattern (d # cs)" by auto
    from 3(1)[OF this] obtain a v b where
      s: "d # cs = a @ EQUALS # DQUOTE # v @ DQUOTE # b" and r: "\<not> has_eq_quote a" "DQUOTE \<notin> set v"
      by blast
    have "\<not> has_eq_quote (c # a)"
    proof (cases a)
      case Nil
      then show ?thesis by simp
    next
      case (Cons e es)
      with s have "e = d" by simp
      with Cons False r(1) show ?thesis by simp
    qed
    with s r(2) have "c # d # cs = (c # a) @ EQUALS # DQUOTE # v @ DQUOTE # b
        \<and> \<not> has_eq_quote (c # a) \<and> DQUOTE \<notin> set v"
      by simp
    then show ?thesis by blast
  qed
qed simp_all

text \<open>
  The two case distinctions are exhaustive, so the equations of the unmatched and of the
  matched case determine each rewrite: a function that satisfies them is the rewrite.
\<close>

lemma attribute_rewrite_determined:
  assumes "\<And>q. \<not> has_pattern q \<Longrightarrow> G q = q"
    and "\<And>a v b. \<not> has_eq_quote a \<Longrightarrow> DQUOTE \<notin> set v \<Longrightarrow>
           G (a @ EQUALS # DQUOTE # v @ DQUOTE # b) = a @ EQUALS # SQUOTE # v @ SQUOTE # G b"
  shows "G q = replace_attribute_quotes q"
proof (induction "length q" arbitrary: q rule: less_induct)
  case less
  show ?case
  proof (cases "has_pattern q")
    case False
    then show ?thesis by (simp add: assms(1) attr_quotes_no_pattern)
  next
    case True
    from has_pattern_split[OF this] obtain a v b where
      q: "q = a @ EQUALS # DQUOTE # v @ DQUOTE # b" and r: "\<not> has_eq_quote a" "DQUOTE \<notin> set v"
      by blast
    from q have "length b < length q" by simp
    then have "G b = replace_attribute_quotes b" by (rule less)
    then show ?thesis
      unfolding q assms(2)[OF r] attr_quotes_first_pattern[OF r] by simp
  qed
qed

lemma tag_rewrite_determined:
  assumes "\<And>s. \<not> has_tag s \<Longrightarrow> F s = s"
    and "\<And>pre tag attrs post. tag \<noteq> [] \<Longrightarrow> \<forall>c\<in>set tag. is_word_char c \<Longrightarrow> no_opener pre \<Longrightarrow>
           GT \<notin> set attrs \<Longrightarrow>
           F (pre @ LT # tag @ attrs @ GT # post)
             = pre @ LT # tag @ replace_attribute_quotes attrs @ GT # F post"
  shows "F s = replace_tags s"
proof (induction "length s" arbitrary: s rule: less_induct)
  case less
  show ?case
  proof (cases "has_tag s")
    case False
    then show ?thesis by (simp add: assms(1) tags_no_tag)
  next
    case True
    from has_tag_split[OF this] obtain pre tag attrs post where
      s: "s = pre @ LT # tag @ attrs @ GT # post" and
      r: "tag \<noteq> []" "\<forall>c\<in>set tag. is_word_char c" "no_opener pre" "GT \<notin> set attrs"
      by blast
    from s have "length post < length s" by simp
    then have "F post = replace_tags post" by (rule less)
    then show ?thesis
      unfolding s assms(2)[OF r] using r by (simp add: tags_before_opener tags_match)
  qed
qed





section \<open>Properties of directive and front-matter processing\<close>

lemma processDirectives_returns: "detectInit c src = Inr i \<Longrightarrow>
  processDirectives c src = Inr \<lparr>dr_text = removeDirectives c src,
     dr_directive = (case detectDirective c src ''wrap'' of
                    Array ds \<Rightarrow>
                      AList.update ''wrap''
                        (JBool (list_ex (\<lambda>d. directive_type d = Some ''wrap'') ds)) (case i of None \<Rightarrow> [] | Some d \<Rightarrow> d)
                  | Single d \<Rightarrow>
                      if directive_type d = Some ''wrap''
                      then AList.update ''wrap'' (JBool True) (case i of None \<Rightarrow> [] | Some d \<Rightarrow> d) else (case i of None \<Rightarrow> [] | Some d \<Rightarrow> d)
                  | Nullish \<Rightarrow> (case i of None \<Rightarrow> [] | Some d \<Rightarrow> d))\<rparr>"
  by (simp add: processDirectives_def Let_def)

text \<open>
  Claim C4. When wrap detection reports a directive whose type is \<open>wrap\<close>, alone or
  anywhere in an array, the directive object that \<open>processDirectives\<close> returns is the init
  directive with \<open>wrap\<close> set to \<open>true\<close>. The result does not depend on how many wrap
  directives were found.
\<close>

theorem wrap_directive_sets_wrap_true:
  assumes "detectInit c src = Inr i"
    and "case detectDirective c src ''wrap'' of
           Array ds \<Rightarrow> \<exists>d\<in>set ds. directive_type d = Some ''wrap''
         | Single d \<Rightarrow> directive_type d = Some ''wrap''
         | Nullish \<Rightarrow> False"
  shows "processDirectives c src =
           Inr \<lparr>dr_text = removeDirectives c src,
                dr_directive = AList.update ''wrap'' (JBool True) (case i of None \<Rightarrow> [] | Some d \<Rightarrow> d)\<rparr>
         \<and> map_of (AList.update ''wrap'' (JBool True) (case i of None \<Rightarrow> [] | Some d \<Rightarrow> d)) ''wrap''
             = Some (JBool True)"
  using assms(2) unfolding processDirectives_returns[OF assms(1)]
  by (auto split: detected.splits simp: list_ex_iff update_conv')

theorem wrap_directive_sets_wrap_true_witness:
  "processDirectives
     (fixed_collaborators \<lparr>efm_text = [], efm_metadata = \<lparr>title = None, displayMode = None, config = None\<rparr>\<rparr>
        (Some [(''theme'', JStr ''dark'')])
        (Array [\<lparr>directive_type = Some ''wrap'', directive_args = JNull\<rparr>,
                \<lparr>directive_type = Some ''wrap'', directive_args = JNull\<rparr>])) ''graph TD''
   = Inr \<lparr>dr_text = ''graph TD'', dr_directive = [(''theme'', JStr ''dark''), (''wrap'', JBool True)]\<rparr>
   \<and> processDirectives
     (fixed_collaborators \<lparr>efm_text = [], efm_metadata = \<lparr>title = None, displayMode = None, config = None\<rparr>\<rparr>
        (Some [(''theme'', JStr ''dark'')])
        (Single \<lparr>directive_type = Some ''wrap'', directive_args = JNull\<rparr>)) ''graph TD''
   = Inr \<lparr>dr_text = ''graph TD'', dr_directive = [(''theme'', JStr ''dark''), (''wrap'', JBool True)]\<rparr>"
  using wrap_directive_sets_wrap_true [of
      "fixed_collaborators \<lparr>efm_text = [], efm_metadata = \<lparr>title = None, displayMode = None, config = None\<rparr>\<rparr>
        (Some [(''theme'', JStr ''dark'')])
        (Array [\<lparr>directive_type = Some ''wrap'', directive_args = JNull\<rparr>,
                \<lparr>directive_type = Some ''wrap'', directive_args = JNull\<rparr>])"
      "''graph TD''" "Some [(''theme'', JStr ''dark'')]"]
    wrap_directive_sets_wrap_true [of
      "fixed_collaborators \<lparr>efm_text = [], efm_metadata = \<lparr>title = None, displayMode = None, config = None\<rparr>\<rparr>
        (Some [(''theme'', JStr ''dark'')])
        (Single \<lparr>directive_type = Some ''wrap'', directive_args = JNull\<rparr>)"
      "''graph TD''" "Some [(''theme'', JStr ''dark'')]"]
  by (simp add: fixed_collaborators_def)

text \<open>
  Claim C9. When wrap detection returns an array without any directive of type \<open>wrap\<close>,
  \<open>wrap\<close> is set to \<open>false\<close>, whatever the init directive said. \<open>wrap\<close> is absent from
  the result only if detection returned a value that is not an array and whose type is
  not \<open>wrap\<close>, and for such a value the init directive is returned as it is.
\<close>

theorem no_wrap_in_array_sets_wrap_false:
  assumes "detectInit c src = Inr i" and "processDirectives c src = Inr r"
    and "init = (case i of None \<Rightarrow> [] | Some d \<Rightarrow> d)"
  shows "(\<forall>ds. detectDirective c src ''wrap'' = Array ds
               \<and> (\<forall>d\<in>set ds. directive_type d \<noteq> Some ''wrap'')
            \<longrightarrow> dr_directive r = AList.update ''wrap'' (JBool False) init
                \<and> map_of (dr_directive r) ''wrap'' = Some (JBool False))
       \<and> (map_of (dr_directive r) ''wrap'' = None
            \<longrightarrow> (\<forall>ds. detectDirective c src ''wrap'' \<noteq> Array ds)
                \<and> (\<forall>d. detectDirective c src ''wrap'' = Single d \<longrightarrow> directive_type d \<noteq> Some ''wrap''))
       \<and> ((\<forall>ds. detectDirective c src ''wrap'' \<noteq> Array ds)
            \<and> (\<forall>d. detectDirective c src ''wrap'' = Single d \<longrightarrow> directive_type d \<noteq> Some ''wrap'')
            \<longrightarrow> dr_directive r = init)"
  using assms(2,3) unfolding processDirectives_returns[OF assms(1)]
  by (auto split: detected.splits simp: list_ex_iff update_conv')

theorem no_wrap_in_array_sets_wrap_false_witness:
  "processDirectives
     (fixed_collaborators
        \<lparr>efm_text = [], efm_metadata = \<lparr>title = None, displayMode = None, config = None\<rparr>\<rparr>
        (Some [(''wrap'', JBool True)])
        (Array [\<lparr>directive_type = Some ''init'', directive_args = JNull\<rparr>,
                \<lparr>directive_type = Some ''wrapper'', directive_args = JNull\<rparr>])) ''graph TD''
   = Inr \<lparr>dr_text = ''graph TD'', dr_directive = [(''wrap'', JBool False)]\<rparr>
   \<and> processDirectives
     (fixed_collaborators
        \<lparr>efm_text = [], efm_metadata = \<lparr>title = None, displayMode = None, config = None\<rparr>\<rparr>
        None
        (Single \<lparr>directive_type = Some ''graph TD'', directive_args = JNull\<rparr>)) ''graph TD''
   = Inr \<lparr>dr_text = ''graph TD'', dr_directive = []\<rparr>"
proof -
  let ?fm = "\<lparr>efm_text = [], efm_metadata = \<lparr>title = None, displayMode = None, config = None\<rparr>\<rparr>"
  let ?c1 = "fixed_collaborators ?fm (Some [(''wrap'', JBool True)])
        (Array [\<lparr>directive_type = Some ''init'', directive_args = JNull\<rparr>,
                \<lparr>directive_type = Some ''wrapper'', directive_args = JNull\<rparr>])"
  let ?c2 = "fixed_collaborators ?fm None
        (Single \<lparr>directive_type = Some ''graph TD'', directive_args = JNull\<rparr>)"
  let ?r1 = "\<lparr>dr_text = ''graph TD'', dr_directive = dr_directive (projr (processDirectives ?c1 ''graph TD''))\<rparr>"
  let ?r2 = "\<lparr>dr_text = ''graph TD'', dr_directive = dr_directive (projr (processDirectives ?c2 ''graph TD''))\<rparr>"
  have i1: "detectInit ?c1 ''graph TD'' = Inr (Some [(''wrap'', JBool True)])"
    and i2: "detectInit ?c2 ''graph TD'' = Inr None"
    by (simp_all add: fixed_collaborators_def)
  have p1: "processDirectives ?c1 ''graph TD'' = Inr ?r1"
    and p2: "processDirectives ?c2 ''graph TD'' = Inr ?r2"
    by (simp_all add: fixed_collaborators_def processDirectives_def)
  have d1: "detectDirective ?c1 ''graph TD'' ''wrap'' =
              Array [\<lparr>directive_type = Some ''init'', directive_args = JNull\<rparr>,
                     \<lparr>directive_type = Some ''wrapper'', directive_args = JNull\<rparr>]"
    and d2: "detectDirective ?c2 ''graph TD'' ''wrap'' =
              Single \<lparr>directive_type = Some ''graph TD'', directive_args = JNull\<rparr>"
    by (simp_all add: fixed_collaborators_def)
  from no_wrap_in_array_sets_wrap_false [OF i1 p1 refl] d1
  have "dr_directive ?r1 = [(''wrap'', JBool False)]" by simp
  moreover from no_wrap_in_array_sets_wrap_false [OF i2 p2 refl] d2
  have "dr_directive ?r2 = []" by simp
  ultimately show ?thesis using p1 p2 by simp
qed

lemma processFrontmatter_projects:
  assumes "extractFrontMatter c src = Inr r" "displayMode (efm_metadata r) = Some dm" "dm \<noteq> []"
  shows "processFrontmatter c src =
    (let config0 = (case config (efm_metadata r) of None \<Rightarrow> [] | Some cfg \<Rightarrow> cfg);
         config1 = (if (case map_of config0 ''gantt'' of None \<Rightarrow> True | Some g \<Rightarrow> \<not> truthy g)
                            then AList.update ''gantt'' (JObj []) config0 else config0)
                     in case map_of config1 ''gantt'' of
                          Some (JObj g) \<Rightarrow>
                            Inr \<lparr>fm_title = title (efm_metadata r),
                                 fm_config = AList.update ''gantt''
                                   (JObj (AList.update ''displayMode'' (JStr dm) g)) config1,
                                 fm_text = efm_text r\<rparr>
                        | _ \<Rightarrow> Inl (TypeError ''Cannot create property displayMode''))"
  using assms by (simp add: processFrontmatter_def Let_def)

text \<open>
  Claim C8, amended. A non-empty \<open>displayMode\<close> of the front-matter metadata is projected
  into \<open>config.gantt.displayMode\<close>, provided \<open>config.gantt\<close> is absent, falsy or an object:
  the \<open>gantt\<close> object is created when it is absent or falsy, its other entries are kept
  when it exists, and the rest of the configuration, the title and the text are passed on
  unchanged.
\<close>

theorem displayMode_projection:
  assumes "extractFrontMatter c src = Inr r"
    and "displayMode (efm_metadata r) = Some dm" and "dm \<noteq> []"
    and "cfg = (case config (efm_metadata r) of None \<Rightarrow> [] | Some x \<Rightarrow> x)"
    and "\<forall>v. map_of cfg ''gantt'' = Some v \<and> truthy v \<longrightarrow> (\<exists>g. v = JObj g)"
  shows "\<exists>fr g. processFrontmatter c src = Inr fr
           \<and> fm_title fr = title (efm_metadata r) \<and> fm_text fr = efm_text r
           \<and> map_of (fm_config fr) ''gantt'' = Some (JObj g)
           \<and> map_of g ''displayMode'' = Some (JStr dm)
           \<and> (\<forall>k. k \<noteq> ''gantt'' \<longrightarrow> map_of (fm_config fr) k = map_of cfg k)
           \<and> (\<forall>k. k \<noteq> ''displayMode'' \<longrightarrow>
                 map_of g k = (case map_of cfg ''gantt'' of Some (JObj g0) \<Rightarrow> map_of g0 k | _ \<Rightarrow> None))"
proof (cases "case map_of cfg ''gantt'' of None \<Rightarrow> True | Some g \<Rightarrow> \<not> truthy g")
  case True
  then have old: "(case map_of cfg ''gantt'' of Some (JObj g0) \<Rightarrow> map_of g0 k | _ \<Rightarrow> None) = None" for k
    by (auto split: option.splits json.splits)
  from True have "processFrontmatter c src =
      Inr \<lparr>fm_title = title (efm_metadata r),
           fm_config = AList.update ''gantt'' (JObj (AList.update ''displayMode'' (JStr dm) []))
                         (AList.update ''gantt'' (JObj []) cfg),
           fm_text = efm_text r\<rparr>"
    unfolding processFrontmatter_projects[OF assms(1,2,3)] assms(4)[symmetric]
    by (simp add: Let_def update_conv')
  then show ?thesis
    using old by (simp add: update_conv')
next
  case False
  then obtain v where v: "map_of cfg ''gantt'' = Some v" "truthy v"
    by (auto split: option.splits)
  with assms(5) obtain g0 where g0: "v = JObj g0" by blast
  from False v g0 have "processFrontmatter c src =
      Inr \<lparr>fm_title = title (efm_metadata r),
           fm_config = AList.update ''gantt'' (JObj (AList.update ''displayMode'' (JStr dm) g0)) cfg,
           fm_text = efm_text r\<rparr>"
    unfolding processFrontmatter_projects[OF assms(1,2,3)] assms(4)[symmetric]
    by (simp add: Let_def)
  then show ?thesis
    using v g0 by (simp add: update_conv')
qed

theorem displayMode_projection_witness:
  "processFrontmatter
     (fixed_collaborators
        \<lparr>efm_text = ''gantt'',
         efm_metadata = \<lparr>title = None, displayMode = Some ''compact'', config = None\<rparr>\<rparr>
        None Nullish) legacy_front_matter
   = Inr \<lparr>fm_title = None,
          fm_config = [(''gantt'', JObj [(''displayMode'', JStr ''compact'')])],
          fm_text = ''gantt''\<rparr>
   \<and> processFrontmatter
     (fixed_collaborators
        \<lparr>efm_text = ''gantt'',
         efm_metadata = \<lparr>title = None, displayMode = Some ''compact'',
                         config = Some [(''gantt'', JObj [(''barHeight'', JNum 20)])]\<rparr>\<rparr>
        None Nullish) legacy_front_matter
   = Inr \<lparr>fm_title = None,
          fm_config = [(''gantt'', JObj [(''barHeight'', JNum 20), (''displayMode'', JStr ''compact'')])],
          fm_text = ''gantt''\<rparr>"
  using displayMode_projection [of
      "fixed_collaborators
        \<lparr>efm_text = ''gantt'',
         efm_metadata = \<lparr>title = None, displayMode = Some ''compact'', config = None\<rparr>\<rparr>
        None Nullish" legacy_front_matter
      "\<lparr>efm_text = ''gantt'',
         efm_metadata = \<lparr>title = None, displayMode = Some ''compact'', config = None\<rparr>\<rparr>"
      "''compact''" "[]"]
    displayMode_projection [of
      "fixed_collaborators
        \<lparr>efm_text = ''gantt'',
         efm_metadata = \<lparr>title = None, displayMode = Some ''compact'',
                         config = Some [(''gantt'', JObj [(''barHeight'', JNum 20)])]\<rparr>\<rparr>
        None Nullish" legacy_front_matter
      "\<lparr>efm_text = ''gantt'',
         efm_metadata = \<lparr>title = None, displayMode = Some ''compact'',
                         config = Some [(''gantt'', JObj [(''barHeight'', JNum 20)])]\<rparr>\<rparr>"
      "''compact''" "[(''gantt'', JObj [(''barHeight'', JNum 20)])]"]
  by (simp add: fixed_collaborators_def processFrontmatter_def)

text \<open>
  Claim C8 as stated fails for an empty \<open>displayMode\<close>: the metadata holds a value, the
  test \<open>if (displayMode)\<close> is false for it, and no \<open>gantt\<close> entry is created.
\<close>

theorem empty_displayMode_is_not_projected:
  "displayMode \<lparr>title = None, displayMode = Some [], config = None\<rparr> = Some []
   \<and> processFrontmatter
     (fixed_collaborators
        \<lparr>efm_text = ''gantt'',
         efm_metadata = \<lparr>title = None, displayMode = Some [], config = None\<rparr>\<rparr>
        None Nullish) (''---'' @ [LF] @ ''displayMode: '' @ [DQUOTE, DQUOTE, LF] @ ''---'' @ [LF] @ ''gantt'')
   = Inr \<lparr>fm_title = None, fm_config = [], fm_text = ''gantt''\<rparr>"
  by (simp add: fixed_collaborators_def processFrontmatter_def)

text \<open>
  An existing \<open>config.gantt\<close> that is a truthy primitive makes the property assignment
  throw.
\<close>

lemma displayMode_on_primitive_gantt_throws:
  "processFrontmatter
     (fixed_collaborators
        \<lparr>efm_text = ''gantt'',
         efm_metadata = \<lparr>title = None, displayMode = Some ''compact'',
                         config = Some [(''gantt'', JBool True)]\<rparr>\<rparr>
        None Nullish) legacy_front_matter
   = Inl (TypeError ''Cannot create property displayMode'')"
  by (simp add: fixed_collaborators_def processFrontmatter_def)


section \<open>Properties of diagram resolution\<close>

lemma loads_of_append: "loads_of ty (xs @ ys) = loads_of ty xs + loads_of ty ys"
  by (induction ty xs rule: loads_of.induct) auto

lemma registrations_append: "registrations (xs @ ys) = registrations xs @ registrations ys"
  by (induction xs rule: registrations.induct) auto

lemma parsed_texts_append: "parsed_texts (xs @ ys) = parsed_texts xs @ parsed_texts ys"
  by (induction xs rule: parsed_texts.induct) auto

lemma definition_calls_loads [simp]: "loads_of ty' (definition_calls ty d m txt) = 0"
  by (simp add: definition_calls_def loads_of_append split: option.splits)

lemma definition_calls_registrations [simp]: "registrations (definition_calls ty d m txt) = []"
  by (simp add: definition_calls_def registrations_append split: option.splits)

lemma definition_calls_parsed [simp]: "parsed_texts (definition_calls ty d m txt) = [txt]"
  by (simp add: definition_calls_def parsed_texts_append split: option.splits)

lemma fromText_after_try:
  assumes "detectType w t (getConfig w) = Inr ty" and "try_getDiagram ty w = (None, w1)"
    and "getDiagram ty w1 = Inr d"
  shows "fromText t m w =
           (case parse (parser d) (encodeEntities w t @ [LF]) of
              Some e \<Rightarrow> Inl e
            | None \<Rightarrow> Inr \<lparr>diagram_type = ty, diagram_text = encodeEntities w t @ [LF],
                           diagram_db = db d, diagram_parser = parser d,
                           diagram_renderer = renderer d\<rparr>,
            w1\<lparr>trace := trace w1 @ definition_calls ty d m (encodeEntities w t @ [LF])\<rparr>)"
  using assms
  by (simp add: fromText_def Let_def definition_calls_def split: option.splits)

lemma try_registered:
  "map_of (diagrams w) ty = Some d \<Longrightarrow> try_getDiagram ty w = (None, w)"
  by (simp add: try_getDiagram_def getDiagram_def)

lemma fromText_registered:
  assumes "detectType w t (getConfig w) = Inr ty" and "map_of (diagrams w) ty = Some d"
  shows "fromText t m w =
           (case parse (parser d) (encodeEntities w t @ [LF]) of
              Some e \<Rightarrow> Inl e
            | None \<Rightarrow> Inr \<lparr>diagram_type = ty, diagram_text = encodeEntities w t @ [LF],
                           diagram_db = db d, diagram_parser = parser d,
                           diagram_renderer = renderer d\<rparr>,
            w\<lparr>trace := trace w @ definition_calls ty d m (encodeEntities w t @ [LF])\<rparr>)"
  using assms(2) by (intro fromText_after_try[OF assms(1) try_registered]) (simp_all add: getDiagram_def)

lemma fromText_loader_rejects:
  assumes "detectType w t (getConfig w) = Inr ty"
    and "map_of (diagrams w) ty = None" and "map_of (loaders w) ty = Some l"
    and "l (trace w) = Inl e"
  shows "fromText t m w = (Inl e, w\<lparr>trace := trace w @ [LoaderCalled ty]\<rparr>)"
  using assms
  by (simp add: fromText_def try_getDiagram_def getDiagram_def getDiagramLoader_def)

lemma try_parsed:
  "try_getDiagram ty w = (r, w1) \<Longrightarrow> parsed_texts (trace w1) = parsed_texts (trace w)
     \<and> encodeEntities w1 = encodeEntities w"
  by (auto simp: try_getDiagram_def registerDiagram_def Let_def parsed_texts_append
      split: sum.splits option.splits if_splits prod.splits)

lemma try_loads:
  assumes "map_of (diagrams w) ty = None" and "map_of (loaders w) ty = Some l"
    and "try_getDiagram ty w = (r, w1)"
  shows "loads_of ty (trace w1) = Suc (loads_of ty (trace w))"
  using assms
  by (auto simp: try_getDiagram_def getDiagram_def getDiagramLoader_def registerDiagram_def Let_def loads_of_append
      split: sum.splits option.splits if_splits prod.splits)

lemma fromText_loads:
  assumes "detectType w t (getConfig w) = Inr ty"
    and "map_of (diagrams w) ty = None" and "map_of (loaders w) ty = Some l"
  shows "loads_of ty (trace (snd (fromText t m w))) = Suc (loads_of ty (trace w))"
proof -
  obtain r w1 where t: "try_getDiagram ty w = (r, w1)" by (cases "try_getDiagram ty w")
  note l = try_loads[OF assms(2,3) t]
  show ?thesis
    using assms(1) t l
    by (auto simp: fromText_def Let_def loads_of_append split: option.splits sum.splits)
qed

lemma try_keeps_registered:
  "try_getDiagram ty w = (None, w1) \<Longrightarrow> getDiagram ty w1 = Inr d \<Longrightarrow>
   detectType w1 = detectType w \<and> getConfig w1 = getConfig w \<and> encodeEntities w1 = encodeEntities w"
  by (auto simp: try_getDiagram_def registerDiagram_def Let_def
      split: sum.splits option.splits if_splits prod.splits)

lemma fromText_success_registers:
  assumes "fromText t m w = (Inr g, w')" and "detectType w t (getConfig w) = Inr ty"
  shows "\<exists>d. map_of (diagrams w') ty = Some d
           \<and> diagram_db g = db d \<and> diagram_parser g = parser d \<and> diagram_renderer g = renderer d
           \<and> detectType w' = detectType w \<and> getConfig w' = getConfig w"
proof -
  obtain r w1 where tr: "try_getDiagram ty w = (r, w1)"
    by (cases "try_getDiagram ty w")
  from assms tr have r: "r = None"
    by (auto simp: fromText_def Let_def split: option.splits)
  from assms tr r obtain d where d: "getDiagram ty w1 = Inr d"
    by (auto simp: fromText_def Let_def split: sum.splits)
  from d have "map_of (diagrams w1) ty = Some d"
    by (auto simp: getDiagram_def split: option.splits)
  with assms(1) try_keeps_registered[OF tr[unfolded r] d] show ?thesis
    unfolding fromText_after_try[OF assms(2) tr[unfolded r] d]
    by (auto split: option.splits)
qed

lemma try_loads_le:
  "try_getDiagram ty w = (r, w1) \<Longrightarrow> loads_of ty (trace w1) \<le> Suc (loads_of ty (trace w))"
  by (auto simp: try_getDiagram_def registerDiagram_def Let_def loads_of_append
      split: sum.splits option.splits if_splits prod.splits)

lemma fromText_loads_le:
  assumes "fromText t m w = (Inr g, w')" and "detectType w t (getConfig w) = Inr ty"
  shows "loads_of ty (trace w') \<le> Suc (loads_of ty (trace w))"
proof -
  obtain r w1 where tr: "try_getDiagram ty w = (r, w1)"
    by (cases "try_getDiagram ty w")
  from assms tr have r: "r = None"
    by (auto simp: fromText_def Let_def split: option.splits)
  from assms tr r obtain d where d: "getDiagram ty w1 = Inr d"
    by (auto simp: fromText_def Let_def split: sum.splits)
  from assms(1) try_loads_le[OF tr] show ?thesis
    unfolding fromText_after_try[OF assms(2) tr[unfolded r] d]
    by (auto simp: loads_of_append split: option.splits)
qed

text \<open>
  After a call that returned a facade the tag is registered, whatever the state before:
  over that call and the next one the loader of the tag is invoked at most once, and the
  second facade is bound to the same definition as the first.
\<close>

lemma resolve_twice_loads_at_most_once:
  assumes "fromText t1 m1 w = (Inr g1, w1)" and "fromText t2 m2 w1 = (r2, w2)"
    and "detectType w t1 (getConfig w) = Inr ty" and "detectType w t2 (getConfig w) = Inr ty"
  shows "loads_of ty (trace w2) \<le> Suc (loads_of ty (trace w))
       \<and> (\<forall>g2. r2 = Inr g2 \<longrightarrow> diagram_db g2 = diagram_db g1
              \<and> diagram_parser g2 = diagram_parser g1 \<and> diagram_renderer g2 = diagram_renderer g1)"
proof -
  from fromText_success_registers[OF assms(1,3)] obtain d where
    d: "map_of (diagrams w1) ty = Some d" "diagram_db g1 = db d" "diagram_parser g1 = parser d"
       "diagram_renderer g1 = renderer d"
    and same: "detectType w1 = detectType w" "getConfig w1 = getConfig w"
    by blast
  have d2: "detectType w1 t2 (getConfig w1) = Inr ty"
    using assms(4) same by simp
  from assms(2) have "loads_of ty (trace w2) = loads_of ty (trace w1)"
    and "\<forall>g2. r2 = Inr g2 \<longrightarrow> diagram_db g2 = db d
              \<and> diagram_parser g2 = parser d \<and> diagram_renderer g2 = renderer d"
    unfolding fromText_registered[OF d2 d(1)]
    by (auto simp: loads_of_append split: option.splits)
  with fromText_loads_le[OF assms(1,3)] d show ?thesis by simp
qed

lemma example_detect [simp]:
  "detectType example_world round_trip_body (getConfig example_world) = Inr ''flowchart''"
  "detectType example_world ''flowchart LR'' (getConfig example_world) = Inr ''flowchart''"
  "detectType example_world ''pie title Pets'' (getConfig example_world) = Inr ''pie''"
  "detectType example_world ''doesnotexist'' (getConfig example_world) = Inr ''doesnotexist''"
  by (simp_all add: example_world_def is_word_char_def round_trip_body_def)

lemma example_fields [simp]:
  "diagrams example_world = [(''flowchart'', flowchart_definition)]"
  "trace example_world = []"
  "encodeEntities example_world = (\<lambda>t. t)"
  "map_of (loaders example_world) ''flowchart'' = None"
  "map_of (loaders example_world) ''doesnotexist'' = None"
  "map_of (loaders example_world) ''pie'' =
     Some (\<lambda>tr. if loads_of ''pie'' tr = 0 then Inl (Thrown ''load failed'')
                 else Inr (''pie'', pie_definition))"
  by (simp_all add: example_world_def)

text \<open>
  Claim C1. When the detected type tag is registered, \<open>fromText\<close> finds its definition
  without entering the loading branch: across two calls in a row the registry stays as it
  was, the loader of the tag is not invoked, nothing is registered, and every facade that
  is returned is bound to the one registered definition.
\<close>

theorem registered_tag_is_not_loaded_again:
  assumes "detectType w t1 (getConfig w) = Inr ty" and "detectType w t2 (getConfig w) = Inr ty"
    and "map_of (diagrams w) ty = Some d"
    and "fromText t1 m1 w = (r1, w1)" and "fromText t2 m2 w1 = (r2, w2)"
  shows "getDiagram ty w = Inr d \<and> getDiagram ty w1 = Inr d \<and> getDiagram ty w2 = Inr d
       \<and> try_getDiagram ty w = (None, w) \<and> try_getDiagram ty w1 = (None, w1)
       \<and> diagrams w1 = diagrams w \<and> diagrams w2 = diagrams w
       \<and> loads_of ty (trace w2) = loads_of ty (trace w)
       \<and> registrations (trace w2) = registrations (trace w)
       \<and> (\<forall>g. r1 = Inr g \<longrightarrow>
             diagram_db g = db d \<and> diagram_parser g = parser d \<and> diagram_renderer g = renderer d)
       \<and> (\<forall>g. r2 = Inr g \<longrightarrow>
             diagram_db g = db d \<and> diagram_parser g = parser d \<and> diagram_renderer g = renderer d)"
proof -
  let ?x1 = "encodeEntities w t1 @ [LF]" and ?x2 = "encodeEntities w t2 @ [LF]"
  from assms(4) have w1: "w1 = w\<lparr>trace := trace w @ definition_calls ty d m1 ?x1\<rparr>"
    and r1: "r1 = (case parse (parser d) ?x1 of Some e \<Rightarrow> Inl e
               | None \<Rightarrow> Inr \<lparr>diagram_type = ty, diagram_text = ?x1, diagram_db = db d,
                              diagram_parser = parser d, diagram_renderer = renderer d\<rparr>)"
    unfolding fromText_registered[OF assms(1,3)] by simp_all
  have d1: "detectType w1 t2 (getConfig w1) = Inr ty" "map_of (diagrams w1) ty = Some d"
    using assms(2,3) by (simp_all add: w1)
  from assms(5) have w2: "w2 = w1\<lparr>trace := trace w1 @ definition_calls ty d m2 (encodeEntities w1 t2 @ [LF])\<rparr>"
    and r2: "r2 = (case parse (parser d) (encodeEntities w1 t2 @ [LF]) of Some e \<Rightarrow> Inl e
               | None \<Rightarrow> Inr \<lparr>diagram_type = ty, diagram_text = encodeEntities w1 t2 @ [LF], diagram_db = db d,
                              diagram_parser = parser d, diagram_renderer = renderer d\<rparr>)"
    unfolding fromText_registered[OF d1] by simp_all
  have a: "getDiagram ty w = Inr d" "getDiagram ty w1 = Inr d" "getDiagram ty w2 = Inr d"
    using assms(3) by (simp_all add: getDiagram_def w1 w2)
  have b: "try_getDiagram ty w = (None, w)" "try_getDiagram ty w1 = (None, w1)"
    using assms(3) d1(2) by (simp_all add: try_registered)
  have c: "diagrams w1 = diagrams w" "diagrams w2 = diagrams w"
    by (simp_all add: w1 w2)
  have e: "loads_of ty (trace w2) = loads_of ty (trace w)"
    "registrations (trace w2) = registrations (trace w)"
    by (simp_all add: w1 w2 loads_of_append registrations_append)
  have f: "\<forall>g. r1 = Inr g \<longrightarrow>
             diagram_db g = db d \<and> diagram_parser g = parser d \<and> diagram_renderer g = renderer d"
    by (auto simp: r1 split: option.splits)
  have g: "\<forall>g. r2 = Inr g \<longrightarrow>
             diagram_db g = db d \<and> diagram_parser g = parser d \<and> diagram_renderer g = renderer d"
    by (auto simp: r2 split: option.splits)
  from a b c e f g show ?thesis by blast
qed

theorem registered_tag_is_not_loaded_again_witness:
  "loads_of ''flowchart''
     (trace (snd (fromText ''flowchart LR'' None
        (snd (fromText round_trip_body (Some ''My Flow'') example_world))))) = 0
   \<and> registrations
     (trace (snd (fromText ''flowchart LR'' None
        (snd (fromText round_trip_body (Some ''My Flow'') example_world))))) = []
   \<and> diagram_db (projr (fst (fromText round_trip_body (Some ''My Flow'') example_world)))
       = db flowchart_definition
   \<and> diagram_db (projr (fst (fromText ''flowchart LR'' None
        (snd (fromText round_trip_body (Some ''My Flow'') example_world)))))
       = db flowchart_definition"
proof -
  let ?c1 = "fromText round_trip_body (Some ''My Flow'') example_world"
  let ?c2 = "fromText ''flowchart LR'' None (snd ?c1)"
  have reg: "map_of (diagrams example_world) ''flowchart'' = Some flowchart_definition"
    by simp
  note fromText_registered[OF example_detect(1) reg, of "Some ''My Flow''", simp]
  have r1: "fst ?c1 = Inr (projr (fst ?c1))"
    by (simp add: flowchart_definition_def)
  have d2: "detectType (snd ?c1) ''flowchart LR'' (getConfig (snd ?c1)) = Inr ''flowchart''"
    using example_detect(2) by simp
  have reg2: "map_of (diagrams (snd ?c1)) ''flowchart'' = Some flowchart_definition"
    by simp
  have r2: "fst ?c2 = Inr (projr (fst ?c2))"
    unfolding fromText_registered[OF d2 reg2] by (simp add: flowchart_definition_def)
  from registered_tag_is_not_loaded_again [OF example_detect(1) example_detect(2) reg,
      of "Some ''My Flow''" "fst ?c1" "snd ?c1" None "fst ?c2" "snd ?c2"] r1 r2
  show ?thesis by simp
qed

text \<open>
  Claim C3. When the detected type tag has neither a registered definition nor a loader,
  \<open>fromText\<close> rejects with \<open>UnknownDiagramError\<close>, and nothing else happens.
\<close>

theorem unknown_type_is_rejected:
  assumes "detectType w t (getConfig w) = Inr ty"
    and "map_of (diagrams w) ty = None" and "map_of (loaders w) ty = None"
  shows "fromText t m w = (Inl (UnknownDiagramError (''Diagram '' @ ty @ '' not found.'')), w)"
  using assms
  by (simp add: fromText_def try_getDiagram_def getDiagram_def getDiagramLoader_def)

theorem unknown_type_is_rejected_witness:
  "fromText ''doesnotexist'' None example_world
     = (Inl (UnknownDiagramError ''Diagram doesnotexist not found.''), example_world)"
  using unknown_type_is_rejected [OF example_detect(4), of None] by simp

text \<open>
  Claim C6. When the loader of an unregistered type tag rejects, \<open>fromText\<close> rejects with
  the loader's value; the only effect is the loader invocation, so nothing is registered
  and the tag stays unregistered, and a further call invokes the loader once more.
\<close>

theorem loader_rejection_leaves_tag_unregistered:
  assumes "detectType w t (getConfig w) = Inr ty"
    and "map_of (diagrams w) ty = None" and "map_of (loaders w) ty = Some l"
    and "l (trace w) = Inl e"
  shows "fromText t m w = (Inl e, w\<lparr>trace := trace w @ [LoaderCalled ty]\<rparr>)
       \<and> map_of (diagrams (snd (fromText t m w))) ty = None
       \<and> registrations (trace (snd (fromText t m w))) = registrations (trace w)
       \<and> loads_of ty (trace (snd (fromText t m' (snd (fromText t m w)))))
           = loads_of ty (trace w) + 2"
proof -
  let ?w1 = "w\<lparr>trace := trace w @ [LoaderCalled ty]\<rparr>"
  have 1: "fromText t m w = (Inl e, ?w1)"
    using assms by (rule fromText_loader_rejects)
  have "loads_of ty (trace (snd (fromText t m' ?w1))) = Suc (loads_of ty (trace ?w1))"
    by (rule fromText_loads[where l = l]) (use assms in simp_all)
  then show ?thesis
    using assms(2) by (simp add: 1 loads_of_append registrations_append)
qed

theorem loader_rejection_leaves_tag_unregistered_witness:
  "fromText ''pie title Pets'' None example_world
     = (Inl (Thrown ''load failed''), example_world\<lparr>trace := [LoaderCalled ''pie'']\<rparr>)
   \<and> loads_of ''pie'' (trace (snd (fromText ''pie title Pets'' None
        (snd (fromText ''pie title Pets'' None example_world))))) = 2"
proof -
  have unreg: "map_of (diagrams example_world) ''pie'' = None"
    by simp
  have rej: "(\<lambda>tr. if loads_of ''pie'' tr = 0 then Inl (Thrown ''load failed'')
                 else Inr (''pie'', pie_definition)) (trace example_world) = Inl (Thrown ''load failed'')"
    by simp
  from loader_rejection_leaves_tag_unregistered
         [OF example_detect(3) unreg example_fields(6) rej, of None None]
  show ?thesis by (elim conjE) (simp add: numeral_2_eq_2)
qed

text \<open>
  Claim C7. Whenever \<open>fromText\<close> returns a facade, its text is the entity-encoded input
  followed by one line feed, and that same string is the one text handed to
  \<open>parser.parse\<close> during the call.
\<close>

theorem parsed_text_is_encoded_input_with_line_feed:
  assumes "fromText t m w = (Inr g, w')"
  shows "diagram_text g = encodeEntities w t @ [LF]
       \<and> parsed_texts (trace w') = parsed_texts (trace w) @ [encodeEntities w t @ [LF]]"
proof -
  from assms obtain ty where ty: "detectType w t (getConfig w) = Inr ty"
    by (auto simp: fromText_def split: sum.splits)
  obtain r w1 where tr: "try_getDiagram ty w = (r, w1)"
    by (cases "try_getDiagram ty w")
  from assms ty tr have r: "r = None"
    by (auto simp: fromText_def Let_def split: option.splits)
  from assms ty tr r obtain d where d: "getDiagram ty w1 = Inr d"
    by (auto simp: fromText_def Let_def split: sum.splits)
  from assms show ?thesis
    unfolding fromText_after_try[OF ty tr[unfolded r] d]
    using try_parsed[OF tr]
    by (auto simp: parsed_texts_append split: option.splits)
qed

theorem parsed_text_is_encoded_input_with_line_feed_witness:
  "diagram_text (projr (fst (fromText ''flowchart LR'' None example_world))) = ''flowchart LR'' @ [LF]
   \<and> parsed_texts (trace (snd (fromText ''flowchart LR'' None example_world))) = [''flowchart LR'' @ [LF]]"
proof -
  let ?c = "fromText ''flowchart LR'' None example_world"
  have reg: "map_of (diagrams example_world) ''flowchart'' = Some flowchart_definition"
    by simp
  have "?c = (Inr (projr (fst ?c)), snd ?c)"
    unfolding fromText_registered[OF example_detect(2) reg] by (simp add: flowchart_definition_def)
  from parsed_text_is_encoded_input_with_line_feed [OF this] show ?thesis by simp
qed

end
